theory Spec2Isabelle
  imports Complex_Main
begin

section \<open>Errors\<close>

text \<open>
  The Python exceptions that the modelled code can raise.  A failing computation returns
  \<open>Inl e\<close>, a successful one \<open>Inr v\<close>.  \<open>Raised\<close> stands for any exception that
  a user kernel or the parameter builder raises.
\<close>

datatype error =
    AssertionError
  | AttributeError
  | TypeError
  | IndexError
  | ValueError
  | AxisError
  | Raised string

definition bind_err :: "error + 'a \<Rightarrow> ('a \<Rightarrow> error + 'b) \<Rightarrow> error + 'b" where
  "bind_err m k = (case m of Inl e \<Rightarrow> Inl e | Inr v \<Rightarrow> k v)"

text \<open>A list comprehension whose body may raise: the first exception ends the loop.\<close>

fun mapM_err :: "('a \<Rightarrow> error + 'b) \<Rightarrow> 'a list \<Rightarrow> error + 'b list" where
  "mapM_err g [] = Inr []"
| "mapM_err g (x # xs) =
     (case g x of
        Inl e \<Rightarrow> Inl e
      | Inr y \<Rightarrow> (case mapM_err g xs of Inl e \<Rightarrow> Inl e | Inr ys \<Rightarrow> Inr (y # ys)))"

section \<open>numpy arrays\<close>

text \<open>
  A numpy \<open>ndarray\<close> is a shape and a buffer holding the entries in row-major (C) order.
  The entries are taken from an arbitrary numeric type with exact arithmetic; rounding of
  floating-point numbers is not modelled.  A Python scalar is the array of shape \<open>[]\<close>.
\<close>

record 'a ndarray =
  shape :: "nat list"
  data :: "'a list"

definition wf_ndarray :: "'a ndarray \<Rightarrow> bool" where
  "wf_ndarray a = (length (data a) = prod_list (shape a))"

text \<open>Offset of a multi-index in the buffer, and the multi-index of an offset.\<close>

fun ravel_index :: "nat list \<Rightarrow> nat list \<Rightarrow> nat" where
  "ravel_index (n # s) (i # idx) = i * prod_list s + ravel_index s idx"
| "ravel_index _ _ = 0"

fun unravel_index :: "nat list \<Rightarrow> nat \<Rightarrow> nat list" where
  "unravel_index [] k = []"
| "unravel_index (n # s) k = (k div prod_list s) # unravel_index s (k mod prod_list s)"

fun valid_index :: "nat list \<Rightarrow> nat list \<Rightarrow> bool" where
  "valid_index [] [] = True"
| "valid_index (n # s) (i # idx) = (i < n \<and> valid_index s idx)"
| "valid_index _ _ = False"

definition item :: "'a ndarray \<Rightarrow> nat list \<Rightarrow> 'a" where
  "item a idx = data a ! ravel_index (shape a) idx"

text \<open>
  \<open>a[i]\<close> for an integer \<open>i \<ge> 0\<close>: the \<open>i\<close>-th slice along the leading axis.  A
  zero-dimensional array cannot be indexed, and an index past the leading axis is out of
  bounds; numpy raises IndexError for both.
\<close>

definition np_take :: "nat \<Rightarrow> 'a ndarray \<Rightarrow> 'a ndarray" where
  "np_take i a =
     \<lparr>shape = tl (shape a),
      data = take (prod_list (tl (shape a))) (drop (i * prod_list (tl (shape a))) (data a))\<rparr>"

definition getitem :: "'a ndarray \<Rightarrow> nat \<Rightarrow> error + 'a ndarray" where
  "getitem a i =
     (case shape a of
        [] \<Rightarrow> Inl IndexError
      | n # s \<Rightarrow> if i < n then Inr (np_take i a) else Inl IndexError)"

text \<open>\<open>np.zeros_like(x)\<close>: a freshly allocated array of the shape of \<open>x\<close>, filled with zeros.\<close>

definition np_zeros_like :: "'a::zero ndarray \<Rightarrow> 'a ndarray" where
  "np_zeros_like x = \<lparr>shape = shape x, data = replicate (prod_list (shape x)) 0\<rparr>"

text \<open>
  Broadcasting: the shorter shape is padded with leading ones; two extents are compatible
  when they are equal or one of them is one.  An array is read at a multi-index of the
  broadcast shape by reading index zero along every axis of extent one.
\<close>

definition pad_shape :: "nat \<Rightarrow> nat list \<Rightarrow> nat list" where
  "pad_shape n s = replicate (n - length s) 1 @ s"

fun broadcast_dims :: "nat list \<Rightarrow> nat list \<Rightarrow> nat list option" where
  "broadcast_dims [] [] = Some []"
| "broadcast_dims (x # xs) (y # ys) =
     (if x = y \<or> y = 1 then map_option ((#) x) (broadcast_dims xs ys)
      else if x = 1 then map_option ((#) y) (broadcast_dims xs ys)
      else None)"
| "broadcast_dims _ _ = None"

definition broadcast_shapes :: "nat list \<Rightarrow> nat list \<Rightarrow> nat list option" where
  "broadcast_shapes s t =
     (let n = max (length s) (length t) in broadcast_dims (pad_shape n s) (pad_shape n t))"

definition broadcast_index :: "nat list \<Rightarrow> nat list \<Rightarrow> nat list" where
  "broadcast_index s idx = map2 (\<lambda>n i. if n = 1 then 0 else i) s idx"

definition bitem :: "'a ndarray \<Rightarrow> nat list \<Rightarrow> 'a" where
  "bitem a idx =
     (let s = pad_shape (length idx) (shape a)
      in data a ! ravel_index s (broadcast_index s idx))"

text \<open>\<open>a * b\<close> on two arrays; shapes that cannot be broadcast raise ValueError.\<close>

definition np_multiply :: "'a::times ndarray \<Rightarrow> 'a ndarray \<Rightarrow> error + 'a ndarray" where
  "np_multiply a b =
     (case broadcast_shapes (shape a) (shape b) of
        None \<Rightarrow> Inl ValueError
      | Some r \<Rightarrow>
          Inr \<lparr>shape = r,
               data = map (\<lambda>k. bitem a (unravel_index r k) * bitem b (unravel_index r k))
                          [0..<prod_list r]\<rparr>)"

text \<open>
  \<open>np.sum(a, axis=1)\<close>: an array with fewer than two axes has no axis 1 (AxisError);
  otherwise axis 1 is summed away.
\<close>

definition np_sum_axis1 :: "'a::comm_monoid_add ndarray \<Rightarrow> error + 'a ndarray" where
  "np_sum_axis1 a =
     (case shape a of
        e # q # rest \<Rightarrow>
          Inr \<lparr>shape = e # rest,
               data = map (\<lambda>k. sum_list (map (\<lambda>j. data a !
                                 (((k div prod_list rest) * q + j) * prod_list rest
                                   + k mod prod_list rest)) [0..<q]))
                          [0..<e * prod_list rest]\<rparr>
      | _ \<Rightarrow> Inl AxisError)"

section \<open>DiscreteField\<close>

text \<open>
  The named tuple \<open>DiscreteField\<close> of \<open>skfem/element/discrete_field.py\<close>: five slots,
  each \<open>None\<close> or an array.  The slots \<open>value\<close> and \<open>div\<close> are written
  \<open>value_comp\<close> and \<open>div_comp\<close>.
\<close>

record 'a DiscreteField =
  value_comp :: "'a ndarray option"
  grad :: "'a ndarray option"
  div_comp :: "'a ndarray option"
  curl :: "'a ndarray option"
  ggrad :: "'a ndarray option"

text \<open>Iterating over the tuple yields the five slots in their declared order.\<close>

definition DiscreteField_iter :: "'a DiscreteField \<Rightarrow> 'a ndarray option list" where
  "DiscreteField_iter self = [value_comp self, grad self, div_comp self, curl self, ggrad self]"

text \<open>
  \<open>DiscreteField(*args)\<close>: the arguments fill the slots from the left, the remaining
  slots take their default \<open>None\<close>; more than five arguments raise TypeError.
\<close>

definition DiscreteField_new :: "'a ndarray option list \<Rightarrow> error + 'a DiscreteField" where
  "DiscreteField_new args =
     (if 5 < length args then Inl TypeError
      else let p = args @ replicate (5 - length args) None
           in Inr \<lparr>value_comp = p ! 0, grad = p ! 1, div_comp = p ! 2,
                    curl = p ! 3, ggrad = p ! 4\<rparr>)"

definition DiscreteField_f :: "'a DiscreteField \<Rightarrow> 'a ndarray option" where
  "DiscreteField_f self = value_comp self"

definition DiscreteField_df :: "'a DiscreteField \<Rightarrow> 'a ndarray option" where
  "DiscreteField_df self =
     (if grad self \<noteq> None then grad self
      else if div_comp self \<noteq> None then div_comp self
      else if curl self \<noteq> None then curl self
      else None)"

definition DiscreteField_ddf :: "'a DiscreteField \<Rightarrow> 'a ndarray option" where
  "DiscreteField_ddf self = ggrad self"

definition DiscreteField_array :: "'a DiscreteField \<Rightarrow> 'a ndarray option" where
  "DiscreteField_array self = DiscreteField_f self"

text \<open>
  The accessor \<open>df\<close> in the words of the specification: the first of the given
  components that is present, else absent.
\<close>

fun first_present :: "'b option list \<Rightarrow> 'b option" where
  "first_present [] = None"
| "first_present (Some x # xs) = Some x"
| "first_present (None # xs) = first_present xs"

text \<open>
  Python's \<open>x * y\<close> where each operand is an array or \<open>None\<close>.  \<open>None\<close> has no
  multiplication of its own, so numpy multiplies entry by entry as objects: every entry
  raises TypeError, and only an array without entries gives a result (again without
  entries).
\<close>

fun py_mul :: "'a::times ndarray option \<Rightarrow> 'a ndarray option \<Rightarrow> error + 'a ndarray" where
  "py_mul (Some a) (Some b) = np_multiply a b"
| "py_mul (Some a) None =
     (if prod_list (shape a) = 0 then Inr \<lparr>shape = shape a, data = []\<rparr> else Inl TypeError)"
| "py_mul None (Some b) =
     (if prod_list (shape b) = 0 then Inr \<lparr>shape = shape b, data = []\<rparr> else Inl TypeError)"
| "py_mul None None = Inl TypeError"

text \<open>
  The objects that \<open>__mul__\<close> meets and returns: a raw numeric array (a scalar being the
  array of shape \<open>[]\<close>) or a \<open>DiscreteField\<close>.
\<close>

datatype 'a pyobj = Array "'a ndarray" | Field "'a DiscreteField"

definition DiscreteField_mul :: "'a::times DiscreteField \<Rightarrow> 'a pyobj \<Rightarrow> error + 'a pyobj" where
  "DiscreteField_mul self other =
     (case other of
        Field fld \<Rightarrow> map_sum id Array (py_mul (DiscreteField_f self) (DiscreteField_f fld))
      | Array c \<Rightarrow> map_sum id Array (py_mul (DiscreteField_f self) (Some c)))"

definition DiscreteField_rmul :: "'a::times DiscreteField \<Rightarrow> 'a pyobj \<Rightarrow> error + 'a pyobj" where
  "DiscreteField_rmul = DiscreteField_mul"

fun present :: "'b option list \<Rightarrow> 'b list" where
  "present [] = []"
| "present (None # xs) = present xs"
| "present (Some x # xs) = x # present xs"

text \<open>
  A tuple of slots whose present entries come first: no absent slot precedes a present one.
\<close>

fun leading_run :: "'b option list \<Rightarrow> bool" where
  "leading_run [] = True"
| "leading_run (Some x # xs) = leading_run xs"
| "leading_run (None # xs) = (present xs = [])"

text \<open>
  \<open>_split\<close>: the number of parts is \<open>self.f.shape[0]\<close>, which raises AttributeError when
  \<open>self.f\<close> is \<open>None\<close> and IndexError when the shape is empty.  Part \<open>i\<close> is built from
  \<open>f[i]\<close> for the components \<open>f\<close> that are not \<open>None\<close>, passed positionally.
\<close>

definition DiscreteField_split :: "'a DiscreteField \<Rightarrow> error + 'a DiscreteField list" where
  "DiscreteField_split self =
     (case DiscreteField_f self of
        None \<Rightarrow> Inl AttributeError
      | Some v \<Rightarrow>
          (case shape v of
             [] \<Rightarrow> Inl IndexError
           | n # s \<Rightarrow>
               mapM_err
                 (\<lambda>i. bind_err (mapM_err (\<lambda>x. getitem x i) (present (DiscreteField_iter self)))
                                (\<lambda>parts. DiscreteField_new (map Some parts)))
                 [0..<n]))"

definition zero_or_none :: "'a::zero ndarray option \<Rightarrow> 'a ndarray option" where
  "zero_or_none x = (case x of None \<Rightarrow> None | Some a \<Rightarrow> Some (np_zeros_like a))"

definition DiscreteField_zeros_like :: "'a::zero DiscreteField \<Rightarrow> error + 'a DiscreteField" where
  "DiscreteField_zeros_like self = DiscreteField_new (map zero_or_none (DiscreteField_iter self))"

section \<open>Functional\<close>

text \<open>
  Modelled from the spec: the class \<open>GlobalBasis\<close> is not among the sources.  Of its
  attributes only \<open>dx\<close>, the integration measure per element and quadrature point, is
  read by \<open>Functional\<close>; everything else a basis owns lives in the record's extension.
\<close>

record 'a GlobalBasis =
  dx :: "'a ndarray"

text \<open>
  \<open>Functional.kernel\<close> of \<open>skfem/assembly/form/functional.py\<close>.  The wrapped integrand
  \<open>self.form\<close> is a parameter; it returns a numeric array or raises.
\<close>

definition Functional_kernel ::
  "('p \<Rightarrow> error + 'a::comm_semiring_0 ndarray) \<Rightarrow> 'p \<Rightarrow> 'a ndarray \<Rightarrow> error + 'a ndarray" where
  "Functional_kernel form w dx' =
     bind_err (form w) (\<lambda>F. bind_err (np_multiply F dx') np_sum_axis1)"

text \<open>
  \<open>Functional.assemble\<close>.  The inherited method \<open>Form.parameters\<close>, which is not among
  the sources, is the parameter \<open>parameters\<close>.  The argument \<open>nthreads\<close> is accepted and
  never read.
\<close>

definition Functional_assemble ::
  "('p \<Rightarrow> error + 'a::comm_semiring_0 ndarray) \<Rightarrow>
   ('w \<Rightarrow> ('a, 'z) GlobalBasis_scheme \<Rightarrow> error + 'p) \<Rightarrow>
   ('a, 'z) GlobalBasis_scheme \<Rightarrow> ('a, 'z) GlobalBasis_scheme option \<Rightarrow> 'w \<Rightarrow> int option \<Rightarrow>
   error + 'a ndarray" where
  "Functional_assemble form parameters ubasis vbasis w nthreads =
     (case vbasis of
        Some other \<Rightarrow> Inl AssertionError
      | None \<Rightarrow>
          (let vbasis' = ubasis
           in bind_err (parameters w vbasis')
                (\<lambda>p. Functional_kernel form p (dx vbasis'))))"

text \<open>
  The value of a kernel output at element \<open>i\<close> and quadrature point \<open>j\<close>, in the words
  of the specification: the output has a row per element and a column per quadrature
  point; an output that is a scalar, or has a single row, or a single column, holds one
  value for all elements, or all points.  Outputs with more than two axes are outside
  this reading and yield \<open>None\<close>.
\<close>

definition at_point :: "'a ndarray \<Rightarrow> nat \<Rightarrow> nat \<Rightarrow> 'a option" where
  "at_point F i j =
     (case shape F of
        [] \<Rightarrow> Some (data F ! 0)
      | [n] \<Rightarrow> Some (data F ! (if n = 1 then 0 else j))
      | [m, n] \<Rightarrow> Some (data F ! ((if m = 1 then 0 else i) * n + (if n = 1 then 0 else j)))
      | _ \<Rightarrow> None)"

section \<open>The insulated-wire example\<close>

text \<open>
  The parameters of \<open>docs/examples/insulated.py\<close> and the expression it prints as the
  exact central temperature, read over the real numbers.  The mesh, the assembled system
  and its solution are not modelled.
\<close>

definition radii :: "real list" where
  "radii = [2, 3]"

definition joule_heating :: real where
  "joule_heating = 5"

definition heat_transfer_coefficient :: real where
  "heat_transfer_coefficient = 7"

definition thermal_conductivity :: "real list" where
  "thermal_conductivity = [101, 11]"

definition T0_exact :: real where
  "T0_exact =
     joule_heating * (radii ! 0) ^ 2 / 4 / thermal_conductivity ! 0 *
       (2 * thermal_conductivity ! 0 / heat_transfer_coefficient / radii ! 1
        + (2 * thermal_conductivity ! 0 / thermal_conductivity ! 1
           * ln (radii ! 1 / radii ! 0)) + 1)"

section \<open>Index arithmetic\<close>

lemma ravel_index_less:
  "valid_index s idx \<Longrightarrow> ravel_index s idx < prod_list s"
proof (induction s idx rule: valid_index.induct)
  case (2 n s i idx)
  then have r: "ravel_index s idx < prod_list s" and i: "i < n" by simp_all
  have "i * prod_list s + ravel_index s idx < i * prod_list s + prod_list s"
    using r by simp
  also have "\<dots> = Suc i * prod_list s" by simp
  also have "\<dots> \<le> n * prod_list s"
    using i by (intro mult_le_mono1) simp
  finally show ?case by simp
qed simp_all

lemma unravel_ravel:
  "valid_index s idx \<Longrightarrow> unravel_index s (ravel_index s idx) = idx"
proof (induction s idx rule: valid_index.induct)
  case (2 n s i idx)
  then have v: "valid_index s idx" by simp
  have r: "ravel_index s idx < prod_list s" by (rule ravel_index_less [OF v])
  then have "(i * prod_list s + ravel_index s idx) div prod_list s = i"
    and "(i * prod_list s + ravel_index s idx) mod prod_list s = ravel_index s idx"
    by simp_all
  then show ?case using 2 v by simp
qed simp_all

lemma valid_unravel:
  "k < prod_list s \<Longrightarrow> valid_index s (unravel_index s k)"
proof (induction s arbitrary: k)
  case Nil
  then show ?case by simp
next
  case (Cons n s)
  then have pos: "0 < prod_list s" by (cases "prod_list s = 0") simp_all
  have "k div prod_list s < n"
    using Cons.prems pos by (simp add: less_mult_imp_div_less mult.commute)
  moreover have "k mod prod_list s < prod_list s" using pos by simp
  ultimately show ?case using Cons.IH by simp
qed

lemma ravel_unravel:
  "k < prod_list s \<Longrightarrow> ravel_index s (unravel_index s k) = k"
proof (induction s arbitrary: k)
  case Nil
  then show ?case by simp
next
  case (Cons n s)
  then have pos: "0 < prod_list s" by (cases "prod_list s = 0") simp_all
  then have "k mod prod_list s < prod_list s" by simp
  then show ?case using Cons.IH by simp
qed

section \<open>Broadcasting, products and sums\<close>

lemma length_unravel_index [simp]: "length (unravel_index s k) = length s"
  by (induction s arbitrary: k) simp_all

lemma valid_index_length: "valid_index s idx \<Longrightarrow> length idx = length s"
  by (induction s idx rule: valid_index.induct) simp_all

lemma pad_shape_same [simp]: "pad_shape (length s) s = s"
  by (simp add: pad_shape_def)

lemma pad_shape_scalar [simp]: "pad_shape n [] = replicate n 1"
  by (simp add: pad_shape_def)

lemma broadcast_dims_same [simp]: "broadcast_dims s s = Some s"
  by (induction s) simp_all

lemma broadcast_dims_ones [simp]: "broadcast_dims s (replicate (length s) (Suc 0)) = Some s"
  by (induction s) simp_all

lemma broadcast_dims_commute: "broadcast_dims s t = broadcast_dims t s"
  by (induction s t rule: broadcast_dims.induct) auto

lemma broadcast_shapes_same [simp]: "broadcast_shapes s s = Some s"
  by (simp add: broadcast_shapes_def)

lemma broadcast_shapes_scalar [simp]: "broadcast_shapes s [] = Some s"
  by (simp add: broadcast_shapes_def)

lemma broadcast_shapes_commute: "broadcast_shapes s t = broadcast_shapes t s"
  by (simp add: broadcast_shapes_def Let_def max.commute broadcast_dims_commute)

lemma broadcast_index_valid:
  "valid_index s idx \<Longrightarrow> broadcast_index s idx = idx"
  by (induction s idx rule: valid_index.induct) (auto simp: broadcast_index_def)

lemma ravel_index_ones [simp]:
  "ravel_index (replicate n (Suc 0)) (broadcast_index (replicate n (Suc 0)) idx) = 0"
proof (induction n arbitrary: idx)
  case 0
  then show ?case by simp
next
  case (Suc n)
  then show ?case by (cases idx) (simp_all add: broadcast_index_def)
qed

lemma bitem_same_shape:
  "valid_index (shape a) idx \<Longrightarrow> bitem a idx = item a idx"
  by (simp add: bitem_def item_def valid_index_length broadcast_index_valid)

lemma bitem_unravel:
  "k < prod_list (shape a) \<Longrightarrow> bitem a (unravel_index (shape a) k) = data a ! k"
  by (simp add: bitem_same_shape valid_unravel item_def ravel_unravel)

lemma bitem_scalar:
  "shape a = [] \<Longrightarrow> bitem a idx = data a ! 0"
  by (simp add: bitem_def)

lemma np_multiply_same_shape:
  fixes a b :: "'a::times ndarray"
  assumes "wf_ndarray a" "wf_ndarray b" "shape a = shape b"
  shows "np_multiply a b = Inr \<lparr>shape = shape a, data = map2 (*) (data a) (data b)\<rparr>"
proof -
  let ?n = "prod_list (shape a)"
  have la: "length (data a) = ?n" and lb: "length (data b) = ?n"
    using assms by (simp_all add: wf_ndarray_def)
  have ea: "bitem a (unravel_index (shape a) k) = data a ! k" if "k < ?n" for k
    using that by (rule bitem_unravel)
  have eb: "bitem b (unravel_index (shape a) k) = data b ! k" if "k < ?n" for k
    using that bitem_unravel [of k b] assms(3) by simp
  have "map (\<lambda>k. bitem a (unravel_index (shape a) k) * bitem b (unravel_index (shape a) k)) [0..<?n]
        = map2 (*) (data a) (data b)"
    using la lb by (intro nth_equalityI) (simp_all add: ea eb)
  moreover have "broadcast_shapes (shape a) (shape b) = Some (shape a)"
    using assms(3) by simp
  ultimately show ?thesis
    by (simp add: np_multiply_def)
qed

lemma np_multiply_scalar:
  fixes a b :: "'a::times ndarray"
  assumes "wf_ndarray a" "shape b = []"
  shows "np_multiply a b = Inr \<lparr>shape = shape a, data = map (\<lambda>x. x * data b ! 0) (data a)\<rparr>"
proof -
  let ?n = "prod_list (shape a)"
  have la: "length (data a) = ?n"
    using assms by (simp add: wf_ndarray_def)
  have "map (\<lambda>k. bitem a (unravel_index (shape a) k) * bitem b (unravel_index (shape a) k)) [0..<?n]
        = map (\<lambda>x. x * data b ! 0) (data a)"
    using la assms(2) by (intro nth_equalityI) (simp_all add: bitem_unravel bitem_scalar)
  then show ?thesis
    using assms(2) by (simp add: np_multiply_def)
qed

lemma np_multiply_commute:
  fixes a b :: "'a::ab_semigroup_mult ndarray"
  shows "np_multiply a b = np_multiply b a"
  by (simp add: np_multiply_def broadcast_shapes_commute [of "shape a" "shape b"] mult.commute
           split: option.splits)

lemma np_multiply_item:
  fixes a b :: "'a::times ndarray"
  assumes "np_multiply a b = Inr m" "valid_index (shape m) idx"
  shows "item m idx = bitem a idx * bitem b idx"
proof -
  obtain r where r: "broadcast_shapes (shape a) (shape b) = Some r"
    using assms(1) by (auto simp: np_multiply_def split: option.splits)
  then have m: "m = \<lparr>shape = r,
               data = map (\<lambda>k. bitem a (unravel_index r k) * bitem b (unravel_index r k))
                          [0..<prod_list r]\<rparr>"
    using assms(1) by (simp add: np_multiply_def)
  have v: "valid_index r idx" using assms(2) m by simp
  then have "ravel_index r idx < prod_list r" by (rule ravel_index_less)
  then show ?thesis
    using v by (simp add: m item_def unravel_ravel)
qed

lemma np_multiply_shape:
  "np_multiply a b = Inr m \<Longrightarrow> broadcast_shapes (shape a) (shape b) = Some (shape m)"
  by (auto simp: np_multiply_def split: option.splits)

lemma np_multiply_wf:
  "np_multiply a b = Inr m \<Longrightarrow> wf_ndarray m"
  by (auto simp: np_multiply_def wf_ndarray_def split: option.splits)

lemma np_sum_axis1_item:
  fixes a :: "'a::comm_monoid_add ndarray"
  assumes "shape a = e # q # rest" "valid_index (e # rest) (i # r)"
  shows "\<exists>m. np_sum_axis1 a = Inr m \<and> shape m = e # rest \<and> wf_ndarray m \<and>
          item m (i # r) = (\<Sum>j<q. item a (i # j # r))"
proof -
  let ?R = "prod_list rest"
  let ?p = "ravel_index rest r"
  define m where "m = \<lparr>shape = e # rest,
               data = map (\<lambda>k. sum_list (map (\<lambda>j. data a !
                                 (((k div ?R) * q + j) * ?R + k mod ?R)) [0..<q]))
                          [0..<e * ?R]\<rparr>"
  have s: "np_sum_axis1 a = Inr m"
    using assms(1) by (simp add: np_sum_axis1_def m_def)
  have i: "i < e" and v: "valid_index rest r" using assms(2) by simp_all
  have p: "?p < ?R" by (rule ravel_index_less [OF v])
  have "i * ?R + ?p < i * ?R + ?R" using p by simp
  also have "\<dots> = Suc i * ?R" by simp
  also have "\<dots> \<le> e * ?R" using i by (intro mult_le_mono1) simp
  finally have k: "i * ?R + ?p < e * ?R" .
  have d: "(i * ?R + ?p) div ?R = i" and mo: "(i * ?R + ?p) mod ?R = ?p"
    using p by simp_all
  have "item m (i # r) = sum_list (map (\<lambda>j. data a ! ((i * q + j) * ?R + ?p)) [0..<q])"
    using k d mo by (simp add: item_def m_def)
  also have "\<dots> = (\<Sum>j<q. data a ! ((i * q + j) * ?R + ?p))"
    by (simp add: interv_sum_list_conv_sum_set_nat atLeast0LessThan)
  also have "\<dots> = (\<Sum>j<q. item a (i # j # r))"
    by (simp add: item_def assms(1) algebra_simps)
  finally have "item m (i # r) = (\<Sum>j<q. item a (i # j # r))" .
  moreover have "wf_ndarray m" by (simp add: wf_ndarray_def m_def)
  moreover have "shape m = e # rest" by (simp add: m_def)
  ultimately show ?thesis using s by blast
qed

text \<open>
  For well-formed arrays every read that \<open>np_multiply\<close> and \<open>np_sum_axis1\<close> make is
  inside the buffer it reads.
\<close>

lemma broadcast_dims_length:
  "broadcast_dims s t = Some r \<Longrightarrow> length s = length r \<and> length t = length r"
  by (induction s t arbitrary: r rule: broadcast_dims.induct) (auto split: if_splits)

lemma broadcast_index_in_range:
  "broadcast_dims s t = Some r \<Longrightarrow> valid_index r idx \<Longrightarrow>
     valid_index s (broadcast_index s idx) \<and> valid_index t (broadcast_index t idx)"
proof (induction s t arbitrary: r idx rule: broadcast_dims.induct)
  case 1
  then show ?case by (cases idx) (simp_all add: broadcast_index_def)
next
  case (2 x xs y ys)
  then obtain z r' where r: "r = z # r'" and r': "broadcast_dims xs ys = Some r'"
    by (auto split: if_splits)
  obtain i idx' where idx: "idx = i # idx'" and i: "i < z" and v: "valid_index r' idx'"
    using 2(4) r by (cases idx) simp_all
  have rec: "valid_index xs (broadcast_index xs idx') \<and> valid_index ys (broadcast_index ys idx')"
    using 2(1,2) r' v 2(3) by (auto split: if_splits)
  have z: "(x \<noteq> 1 \<longrightarrow> z = x) \<and> (y \<noteq> 1 \<longrightarrow> z = y)"
    using 2(3) r by (auto split: if_splits)
  show ?case
    using rec i z by (auto simp: idx broadcast_index_def)
qed simp_all

lemma prod_list_pad_shape [simp]: "prod_list (pad_shape n s) = prod_list s"
  by (simp add: pad_shape_def)

lemma bitem_in_range:
  assumes "wf_ndarray a" "wf_ndarray b"
    and "broadcast_shapes (shape a) (shape b) = Some r" "valid_index r idx"
  shows "ravel_index (pad_shape (length idx) (shape a))
           (broadcast_index (pad_shape (length idx) (shape a)) idx) < length (data a) \<and>
         ravel_index (pad_shape (length idx) (shape b))
           (broadcast_index (pad_shape (length idx) (shape b)) idx) < length (data b)"
proof -
  let ?n = "max (length (shape a)) (length (shape b))"
  have d: "broadcast_dims (pad_shape ?n (shape a)) (pad_shape ?n (shape b)) = Some r"
    using assms(3) by (simp add: broadcast_shapes_def Let_def)
  have "length (pad_shape ?n (shape a)) = length r"
    using broadcast_dims_length [OF d] by simp
  then have n: "length idx = ?n"
    using valid_index_length [OF assms(4)] by (simp add: pad_shape_def)
  have "valid_index (pad_shape ?n (shape a)) (broadcast_index (pad_shape ?n (shape a)) idx)"
    and "valid_index (pad_shape ?n (shape b)) (broadcast_index (pad_shape ?n (shape b)) idx)"
    using broadcast_index_in_range [OF d assms(4)] by simp_all
  then have "ravel_index (pad_shape ?n (shape a))
       (broadcast_index (pad_shape ?n (shape a)) idx) < prod_list (shape a)"
    and "ravel_index (pad_shape ?n (shape b))
       (broadcast_index (pad_shape ?n (shape b)) idx) < prod_list (shape b)"
    using ravel_index_less [of "pad_shape ?n (shape a)"]
      ravel_index_less [of "pad_shape ?n (shape b)"] by simp_all
  then show ?thesis
    using assms(1,2) n by (simp add: wf_ndarray_def)
qed

lemma np_sum_axis1_in_range:
  fixes e q R k j :: nat
  assumes "k < e * R" "j < q"
  shows "(k div R * q + j) * R + k mod R < e * q * R"
proof -
  have pos: "0 < R" using assms(1) by (cases "R = 0") simp_all
  have "k div R < e"
    using assms(1) pos by (simp add: less_mult_imp_div_less)
  then have "Suc (k div R) * q \<le> e * q"
    by (intro mult_le_mono1) simp
  then have "Suc (k div R * q + j) \<le> e * q"
    using assms(2) by simp
  then have "Suc (k div R * q + j) * R \<le> e * q * R"
    by (rule mult_le_mono1)
  moreover have "(k div R * q + j) * R + k mod R < Suc (k div R * q + j) * R"
    using pos by simp
  ultimately show ?thesis by linarith
qed

section \<open>Accessors of a DiscreteField\<close>

text \<open>
  Claim C3.  For every DiscreteField, the accessor \<open>f\<close> returns the value component,
  \<open>ddf\<close> returns the ggrad component, and \<open>df\<close> returns the first present component
  in the order grad, div, curl; it returns \<open>None\<close> exactly when all three are absent.
\<close>

theorem DiscreteField_accessors:
  "DiscreteField_f d = value_comp d \<and>
   DiscreteField_ddf d = ggrad d \<and>
   DiscreteField_df d = first_present [grad d, div_comp d, curl d] \<and>
   (DiscreteField_df d = None) = (grad d = None \<and> div_comp d = None \<and> curl d = None)"
  by (cases "grad d"; cases "div_comp d"; cases "curl d")
     (simp_all add: DiscreteField_f_def DiscreteField_ddf_def DiscreteField_df_def)

theorem DiscreteField_accessors_witness:
  "DiscreteField_df \<lparr>value_comp = None, grad = None,
       div_comp = Some \<lparr>shape = [1], data = [4::int]\<rparr>,
       curl = Some \<lparr>shape = [1], data = [5]\<rparr>, ggrad = None\<rparr>
     = Some \<lparr>shape = [1], data = [4]\<rparr>"
  using DiscreteField_accessors [of "\<lparr>value_comp = None, grad = None,
       div_comp = Some \<lparr>shape = [1], data = [4::int]\<rparr>,
       curl = Some \<lparr>shape = [1], data = [5]\<rparr>, ggrad = None\<rparr>"]
  by simp

section \<open>Zero fields\<close>

lemma np_zeros_like_item:
  "valid_index (shape x) idx \<Longrightarrow> item (np_zeros_like x) idx = 0"
  by (simp add: item_def np_zeros_like_def ravel_index_less)

lemma DiscreteField_zeros_like_eq:
  "DiscreteField_zeros_like d =
     Inr \<lparr>value_comp = zero_or_none (value_comp d), grad = zero_or_none (grad d),
          div_comp = zero_or_none (div_comp d), curl = zero_or_none (curl d),
          ggrad = zero_or_none (ggrad d)\<rparr>"
  by (simp add: DiscreteField_zeros_like_def DiscreteField_iter_def DiscreteField_new_def)

text \<open>
  Claim C5.  For every DiscreteField, \<open>zeros_like\<close> returns a new DiscreteField in which
  every present component is replaced by an array of zeros of the same shape and every
  absent component stays absent.  In particular a field with only value and grad present
  is mapped to a field with value and grad zeroed and div, curl and ggrad absent.
\<close>

theorem DiscreteField_zeros_like_components:
  fixes d :: "'a::zero DiscreteField"
  shows
  "DiscreteField_zeros_like d =
     Inr \<lparr>value_comp = map_option np_zeros_like (value_comp d),
          grad = map_option np_zeros_like (grad d),
          div_comp = map_option np_zeros_like (div_comp d),
          curl = map_option np_zeros_like (curl d),
          ggrad = map_option np_zeros_like (ggrad d)\<rparr> \<and>
   (\<forall>x :: 'a ndarray. shape (np_zeros_like x) = shape x \<and> wf_ndarray (np_zeros_like x) \<and>
      (\<forall>idx. valid_index (shape x) idx \<longrightarrow> item (np_zeros_like x) idx = 0)) \<and>
   (value_comp d = Some v \<and> grad d = Some g \<and> div_comp d = None \<and> curl d = None \<and>
    ggrad d = None \<longrightarrow>
      DiscreteField_zeros_like d =
        Inr \<lparr>value_comp = Some (np_zeros_like v), grad = Some (np_zeros_like g),
             div_comp = None, curl = None, ggrad = None\<rparr>)"
proof -
  have z: "zero_or_none = map_option (np_zeros_like :: 'a ndarray \<Rightarrow> 'a ndarray)"
    by (rule ext) (simp add: zero_or_none_def split: option.splits)
  have a: "DiscreteField_zeros_like d =
     Inr \<lparr>value_comp = map_option np_zeros_like (value_comp d),
          grad = map_option np_zeros_like (grad d),
          div_comp = map_option np_zeros_like (div_comp d),
          curl = map_option np_zeros_like (curl d),
          ggrad = map_option np_zeros_like (ggrad d)\<rparr>"
    by (simp add: DiscreteField_zeros_like_eq z)
  have b: "shape (np_zeros_like x) = shape x \<and> wf_ndarray (np_zeros_like x) \<and>
      (\<forall>idx. valid_index (shape x) idx \<longrightarrow> item (np_zeros_like x) idx = 0)"
    for x :: "'a ndarray"
    by (simp add: np_zeros_like_item) (simp add: np_zeros_like_def wf_ndarray_def)
  show ?thesis
    using a b by simp
qed

theorem DiscreteField_zeros_like_components_witness:
  "DiscreteField_zeros_like
     \<lparr>value_comp = Some \<lparr>shape = [1, 2], data = [3, 4::int]\<rparr>,
      grad = Some \<lparr>shape = [2, 1, 2], data = [5, 6, 7, 8]\<rparr>,
      div_comp = None, curl = None, ggrad = None\<rparr>
   = Inr \<lparr>value_comp = Some \<lparr>shape = [1, 2], data = [0, 0]\<rparr>,
      grad = Some \<lparr>shape = [2, 1, 2], data = [0, 0, 0, 0]\<rparr>,
      div_comp = None, curl = None, ggrad = None\<rparr>"
proof -
  have z1: "np_zeros_like \<lparr>shape = [1, 2], data = [3, 4::int]\<rparr> = \<lparr>shape = [1, 2], data = [0, 0]\<rparr>"
    by code_simp
  have z2: "np_zeros_like \<lparr>shape = [2, 1, 2], data = [5, 6, 7, 8::int]\<rparr>
      = \<lparr>shape = [2, 1, 2], data = [0, 0, 0, 0]\<rparr>"
    by code_simp
  show ?thesis
    using DiscreteField_zeros_like_components
      [of "\<lparr>value_comp = Some \<lparr>shape = [1, 2], data = [3, 4::int]\<rparr>,
      grad = Some \<lparr>shape = [2, 1, 2], data = [5, 6, 7, 8]\<rparr>,
      div_comp = None, curl = None, ggrad = None\<rparr>"
        "\<lparr>shape = [1, 2], data = [3, 4::int]\<rparr>"
        "\<lparr>shape = [2, 1, 2], data = [5, 6, 7, 8]\<rparr>"]
      z1 z2
    by simp
qed

section \<open>Multiplication\<close>

lemma DiscreteField_mul_Field:
  "DiscreteField_mul a (Field b) = map_sum id Array (py_mul (value_comp a) (value_comp b))"
  by (simp add: DiscreteField_mul_def DiscreteField_f_def)

lemma DiscreteField_mul_Array:
  "DiscreteField_mul a (Array c) = map_sum id Array (py_mul (value_comp a) (Some c))"
  by (simp add: DiscreteField_mul_def DiscreteField_f_def)

lemma DiscreteField_mul_returns_array:
  assumes "DiscreteField_mul a other = Inr r"
  shows "\<exists>m. r = Array m"
proof -
  have "\<exists>m. r = Array m" if "map_sum id Array x = Inr r" for x :: "error + 'a ndarray"
    using that by (cases x) auto
  then show ?thesis
    using assms by (cases other) (auto simp: DiscreteField_mul_Field DiscreteField_mul_Array)
qed

text \<open>
  Claim C4, as the specification states it, makes the product of two DiscreteFields a
  DiscreteField with only the value slot filled.  The code returns the product array
  itself: at the two fields below the result is the raw array, which is not the
  value-only DiscreteField.
\<close>

theorem DiscreteField_mul_field_counterexample:
  "DiscreteField_mul
     \<lparr>value_comp = Some \<lparr>shape = [1, 2], data = [2, 3::int]\<rparr>,
      grad = Some \<lparr>shape = [2, 1, 2], data = [1, 1, 1, 1]\<rparr>,
      div_comp = None, curl = None, ggrad = None\<rparr>
     (Field \<lparr>value_comp = Some \<lparr>shape = [1, 2], data = [5, 7]\<rparr>,
      grad = None, div_comp = None, curl = None, ggrad = None\<rparr>)
   = Inr (Array \<lparr>shape = [1, 2], data = [10, 21]\<rparr>) \<and>
   DiscreteField_mul
     \<lparr>value_comp = Some \<lparr>shape = [1, 2], data = [2, 3::int]\<rparr>,
      grad = Some \<lparr>shape = [2, 1, 2], data = [1, 1, 1, 1]\<rparr>,
      div_comp = None, curl = None, ggrad = None\<rparr>
     (Field \<lparr>value_comp = Some \<lparr>shape = [1, 2], data = [5, 7]\<rparr>,
      grad = None, div_comp = None, curl = None, ggrad = None\<rparr>)
   \<noteq> Inr (Field \<lparr>value_comp = Some \<lparr>shape = [1, 2], data = [10, 21]\<rparr>,
      grad = None, div_comp = None, curl = None, ggrad = None\<rparr>)"
proof -
  have "DiscreteField_mul
     \<lparr>value_comp = Some \<lparr>shape = [1, 2], data = [2, 3::int]\<rparr>,
      grad = Some \<lparr>shape = [2, 1, 2], data = [1, 1, 1, 1]\<rparr>,
      div_comp = None, curl = None, ggrad = None\<rparr>
     (Field \<lparr>value_comp = Some \<lparr>shape = [1, 2], data = [5, 7]\<rparr>,
      grad = None, div_comp = None, curl = None, ggrad = None\<rparr>)
   = Inr (Array \<lparr>shape = [1, 2], data = [10, 21]\<rparr>)"
    by code_simp
  then show ?thesis by simp
qed

text \<open>
  Claim C4, amended.  For every two DiscreteFields \<open>a\<close> and \<open>b\<close> with present value
  components, \<open>a * b\<close> is the numpy product of the two value components and depends on
  nothing else of the operands; for a raw array \<open>c\<close>, \<open>a * c\<close> is the numpy product of
  the value component with \<open>c\<close>.  For equal shapes the product is entry by entry.  Every
  result of \<open>__mul__\<close> is a raw array, never a DiscreteField.
\<close>

theorem DiscreteField_mul_values:
  fixes a b :: "'a::times DiscreteField"
  assumes "value_comp a = Some va" "value_comp b = Some vb"
  shows
  "DiscreteField_mul a (Field b) = map_sum id Array (np_multiply va vb) \<and>
   DiscreteField_mul a (Array c) = map_sum id Array (np_multiply va c) \<and>
   (\<forall>a' b'. value_comp a' = Some va \<and> value_comp b' = Some vb \<longrightarrow>
        DiscreteField_mul a' (Field b') = DiscreteField_mul a (Field b)) \<and>
   (\<forall>other r. DiscreteField_mul a other = Inr r \<longrightarrow> (\<exists>m. r = Array m)) \<and>
   (wf_ndarray va \<and> wf_ndarray vb \<and> shape va = shape vb \<longrightarrow>
      DiscreteField_mul a (Field b) =
        Inr (Array \<lparr>shape = shape va, data = map2 (*) (data va) (data vb)\<rparr>)) \<and>
   (wf_ndarray va \<and> wf_ndarray c \<and> shape va = shape c \<longrightarrow>
      DiscreteField_mul a (Array c) =
        Inr (Array \<lparr>shape = shape va, data = map2 (*) (data va) (data c)\<rparr>))"
proof -
  have f: "DiscreteField_mul a (Field b) = map_sum id Array (np_multiply va vb)"
    using assms by (simp add: DiscreteField_mul_Field)
  have r: "DiscreteField_mul a (Array c) = map_sum id Array (np_multiply va c)"
    using assms by (simp add: DiscreteField_mul_Array)
  have i: "DiscreteField_mul a' (Field b') = DiscreteField_mul a (Field b)"
    if "value_comp a' = Some va \<and> value_comp b' = Some vb" for a' b'
    using that f by (simp add: DiscreteField_mul_Field)
  have k: "\<exists>m. r = Array m" if "DiscreteField_mul a other = Inr r" for other r
    using that by (rule DiscreteField_mul_returns_array)
  have e1: "DiscreteField_mul a (Field b) =
        Inr (Array \<lparr>shape = shape va, data = map2 (*) (data va) (data vb)\<rparr>)"
    if "wf_ndarray va \<and> wf_ndarray vb \<and> shape va = shape vb"
    using that f by (simp add: np_multiply_same_shape)
  have e2: "DiscreteField_mul a (Array c) =
        Inr (Array \<lparr>shape = shape va, data = map2 (*) (data va) (data c)\<rparr>)"
    if "wf_ndarray va \<and> wf_ndarray c \<and> shape va = shape c"
    using that r by (simp add: np_multiply_same_shape)
  show ?thesis
    using f r i k e1 e2 by blast
qed

theorem DiscreteField_mul_values_witness:
  "DiscreteField_mul
     \<lparr>value_comp = Some \<lparr>shape = [1, 2], data = [2, 3::int]\<rparr>,
      grad = Some \<lparr>shape = [2, 1, 2], data = [1, 1, 1, 1]\<rparr>,
      div_comp = None, curl = None, ggrad = None\<rparr>
     (Field \<lparr>value_comp = Some \<lparr>shape = [1, 2], data = [5, 7]\<rparr>,
      grad = None, div_comp = None, curl = None, ggrad = None\<rparr>)
   = Inr (Array \<lparr>shape = [1, 2], data = [10, 21]\<rparr>) \<and>
   DiscreteField_mul
     \<lparr>value_comp = Some \<lparr>shape = [1, 2], data = [2, 3::int]\<rparr>,
      grad = Some \<lparr>shape = [2, 1, 2], data = [1, 1, 1, 1]\<rparr>,
      div_comp = None, curl = None, ggrad = None\<rparr>
     (Array \<lparr>shape = [1, 2], data = [4, 6]\<rparr>)
   = Inr (Array \<lparr>shape = [1, 2], data = [8, 18]\<rparr>)"
proof -
  let ?va = "\<lparr>shape = [1, 2], data = [2, 3::int]\<rparr>"
  let ?vb = "\<lparr>shape = [1, 2], data = [5, 7::int]\<rparr>"
  let ?c = "\<lparr>shape = [1, 2], data = [4, 6::int]\<rparr>"
  let ?a = "\<lparr>value_comp = Some ?va,
      grad = Some \<lparr>shape = [2, 1, 2], data = [1, 1, 1, 1]\<rparr>,
      div_comp = None, curl = None, ggrad = None\<rparr>"
  let ?b = "\<lparr>value_comp = Some ?vb,
      grad = None, div_comp = None, curl = None, ggrad = None\<rparr>"
  have ha: "value_comp ?a = Some ?va" and hb: "value_comp ?b = Some ?vb"
    by simp_all
  have wb: "wf_ndarray ?va \<and> wf_ndarray ?vb \<and> shape ?va = shape ?vb"
    and wc: "wf_ndarray ?va \<and> wf_ndarray ?c \<and> shape ?va = shape ?c"
    by (simp_all add: wf_ndarray_def)
  note t = DiscreteField_mul_values [OF ha hb, of ?c]
  from t wb have r1: "DiscreteField_mul ?a (Field ?b) =
      Inr (Array \<lparr>shape = shape ?va, data = map2 (*) (data ?va) (data ?vb)\<rparr>)"
    by blast
  from t wc have r2: "DiscreteField_mul ?a (Array ?c) =
      Inr (Array \<lparr>shape = shape ?va, data = map2 (*) (data ?va) (data ?c)\<rparr>)"
    by blast
  show ?thesis using r1 r2 by simp
qed

text \<open>
  Claim C10.  For every DiscreteField \<open>d\<close> with present value component and every raw
  numeric operand \<open>c\<close> (an array, or a scalar as the array of shape \<open>[]\<close>), right
  multiplication \<open>c * d\<close> is the same operation as left multiplication \<open>d * c\<close>, and
  both are the product of the value component with \<open>c\<close>: entry by entry for equal
  shapes, every entry times \<open>c\<close> for a scalar.  When the left operand is an ndarray,
  numpy multiplies it with the field's \<open>__array__\<close>, the value component, itself; that
  product is the same array, as numpy's product commutes.
\<close>

theorem DiscreteField_rmul_commutes:
  fixes d :: "'a::ab_semigroup_mult DiscreteField"
  assumes "value_comp d = Some v"
  shows
  "DiscreteField_rmul d (Array c) = DiscreteField_mul d (Array c) \<and>
   DiscreteField_mul d (Array c) = map_sum id Array (np_multiply v c) \<and>
   np_multiply c v = np_multiply v c \<and>
   (wf_ndarray v \<and> wf_ndarray c \<and> shape c = shape v \<longrightarrow>
      DiscreteField_rmul d (Array c) =
        Inr (Array \<lparr>shape = shape v, data = map2 (*) (data v) (data c)\<rparr>)) \<and>
   (wf_ndarray v \<and> shape c = [] \<longrightarrow>
      DiscreteField_rmul d (Array c) =
        Inr (Array \<lparr>shape = shape v, data = map (\<lambda>x. x * data c ! 0) (data v)\<rparr>))"
proof -
  have m: "DiscreteField_mul d (Array c) = map_sum id Array (np_multiply v c)"
    using assms by (simp add: DiscreteField_mul_Array)
  have r: "DiscreteField_rmul d (Array c) = DiscreteField_mul d (Array c)"
    by (simp add: DiscreteField_rmul_def)
  have e: "DiscreteField_rmul d (Array c) =
        Inr (Array \<lparr>shape = shape v, data = map2 (*) (data v) (data c)\<rparr>)"
    if "wf_ndarray v \<and> wf_ndarray c \<and> shape c = shape v"
    using that m r by (simp add: np_multiply_same_shape)
  have s: "DiscreteField_rmul d (Array c) =
        Inr (Array \<lparr>shape = shape v, data = map (\<lambda>x. x * data c ! 0) (data v)\<rparr>)"
    if "wf_ndarray v \<and> shape c = []"
    using that m r by (simp add: np_multiply_scalar)
  show ?thesis
    using m r e s np_multiply_commute [of c v] by blast
qed

theorem DiscreteField_rmul_commutes_witness:
  "DiscreteField_rmul
     \<lparr>value_comp = Some \<lparr>shape = [1, 2], data = [2, 3::int]\<rparr>,
      grad = None, div_comp = None, curl = None, ggrad = None\<rparr>
     (Array \<lparr>shape = [], data = [5]\<rparr>)
   = Inr (Array \<lparr>shape = [1, 2], data = [10, 15]\<rparr>) \<and>
   DiscreteField_mul
     \<lparr>value_comp = Some \<lparr>shape = [1, 2], data = [2, 3::int]\<rparr>,
      grad = None, div_comp = None, curl = None, ggrad = None\<rparr>
     (Array \<lparr>shape = [], data = [5]\<rparr>)
   = Inr (Array \<lparr>shape = [1, 2], data = [10, 15]\<rparr>)"
proof -
  let ?v = "\<lparr>shape = [1, 2], data = [2, 3::int]\<rparr>"
  let ?c = "\<lparr>shape = [], data = [5::int]\<rparr>"
  let ?d = "\<lparr>value_comp = Some ?v,
      grad = None, div_comp = None, curl = None, ggrad = None\<rparr>"
  have hd: "value_comp ?d = Some ?v"
    by simp
  have w: "wf_ndarray ?v \<and> shape ?c = []"
    by (simp add: wf_ndarray_def)
  note t = DiscreteField_rmul_commutes [OF hd, of ?c]
  from t w have r1: "DiscreteField_rmul ?d (Array ?c) =
      Inr (Array \<lparr>shape = shape ?v, data = map (\<lambda>x. x * data ?c ! 0) (data ?v)\<rparr>)"
    by blast
  from t have r2: "DiscreteField_rmul ?d (Array ?c) = DiscreteField_mul ?d (Array ?c)"
    by blast
  show ?thesis using r1 r2 by simp
qed

section \<open>Assembling a Functional\<close>

text \<open>
  Claim C1.  For every form and every \<open>ubasis\<close>, \<open>Functional.assemble\<close> called with a
  second basis fails with the assertion error, whatever the form and the parameter builder
  would have done; a call that returns a result was made without a second basis, and then
  the parameters and the measure are taken from \<open>ubasis\<close>.
\<close>

theorem Functional_assemble_vbasis:
  "Functional_assemble form parameters ubasis (Some vb) w nthreads = Inl AssertionError \<and>
   (Functional_assemble form parameters ubasis vbasis w nthreads = Inr r \<longrightarrow> vbasis = None) \<and>
   Functional_assemble form parameters ubasis None w nthreads =
     bind_err (parameters w ubasis) (\<lambda>p. Functional_kernel form p (dx ubasis))"
  by (cases vbasis) (simp_all add: Functional_assemble_def)

theorem Functional_assemble_vbasis_witness:
  "Functional_assemble Inr (\<lambda>w b. Inr \<lparr>shape = [1, 2], data = [5, 6::int]\<rparr>)
       \<lparr>dx = \<lparr>shape = [1, 2], data = [3, 4]\<rparr>\<rparr>
       (Some \<lparr>dx = \<lparr>shape = [1, 2], data = [3, 4]\<rparr>\<rparr>) () (Some 1)
     = Inl AssertionError \<and>
   Functional_assemble Inr (\<lambda>w b. Inr \<lparr>shape = [1, 2], data = [5, 6::int]\<rparr>)
       \<lparr>dx = \<lparr>shape = [1, 2], data = [3, 4]\<rparr>\<rparr> None () (Some 1)
     = Inr \<lparr>shape = [1], data = [39]\<rparr>"
proof -
  have run: "Functional_assemble Inr (\<lambda>w b. Inr \<lparr>shape = [1, 2], data = [5, 6::int]\<rparr>)
       \<lparr>dx = \<lparr>shape = [1, 2], data = [3, 4]\<rparr>\<rparr> None () (Some 1)
     = Inr \<lparr>shape = [1], data = [39]\<rparr>"
    by code_simp
  show ?thesis
    using Functional_assemble_vbasis
      [of Inr "\<lambda>w b. Inr \<lparr>shape = [1, 2], data = [5, 6::int]\<rparr>"
          "\<lparr>dx = \<lparr>shape = [1, 2], data = [3, 4]\<rparr>\<rparr>"
          "\<lparr>dx = \<lparr>shape = [1, 2], data = [3, 4]\<rparr>\<rparr>" "()" "Some 1" None
          "\<lparr>shape = [1], data = [39]\<rparr>"]
      run
    by simp
qed

lemma np_sum_axis1_shape:
  fixes a :: "'a::comm_monoid_add ndarray"
  assumes "shape a = e # q # rest"
  shows "\<exists>m. np_sum_axis1 a = Inr m \<and> shape m = e # rest \<and> wf_ndarray m"
  using assms by (simp add: np_sum_axis1_def wf_ndarray_def)

lemma np_sum_axis1_entry:
  fixes a :: "'a::comm_monoid_add ndarray"
  assumes "np_sum_axis1 a = Inr m" "shape a = e # q # rest" "valid_index (e # rest) (i # r)"
  shows "item m (i # r) = (\<Sum>j<q. item a (i # j # r))"
  using np_sum_axis1_item [OF assms(2,3)] assms(1) by auto

lemma Functional_assemble_unfold:
  "Functional_assemble form parameters ubasis None w nthreads =
     bind_err (parameters w ubasis)
       (\<lambda>p. bind_err (form p) (\<lambda>F. bind_err (np_multiply F (dx ubasis)) np_sum_axis1))"
  by (simp add: Functional_assemble_def Functional_kernel_def)

text \<open>
  The result of \<open>Functional.assemble\<close> read through numpy's broadcasting: when the product
  \<open>form(w) * dx\<close> has the shape \<open>e # q # rest\<close>, axis 1 of the product is summed away.
\<close>

lemma Functional_assemble_entries:
  fixes form :: "'p \<Rightarrow> error + 'a::comm_semiring_0 ndarray"
  assumes "parameters w ubasis = Inr p" "form p = Inr F"
    and "broadcast_shapes (shape F) (shape (dx ubasis)) = Some (e # q # rest)"
  shows
  "Functional_assemble form parameters ubasis None w nthreads =
     bind_err (np_multiply F (dx ubasis)) np_sum_axis1 \<and>
   (\<exists>R. Functional_assemble form parameters ubasis None w nthreads = Inr R \<and>
        shape R = e # rest \<and> wf_ndarray R \<and>
        (\<forall>i r. valid_index (e # rest) (i # r) \<longrightarrow>
           item R (i # r) = (\<Sum>j<q. bitem F (i # j # r) * bitem (dx ubasis) (i # j # r))) \<and>
        (shape F = [e, q] \<and> shape (dx ubasis) = [e, q] \<longrightarrow>
           (\<forall>i<e. item R [i] = (\<Sum>j<q. item F [i, j] * item (dx ubasis) [i, j]))))"
proof -
  have u: "Functional_assemble form parameters ubasis None w nthreads =
     bind_err (np_multiply F (dx ubasis)) np_sum_axis1"
    using assms(1,2) by (simp add: Functional_assemble_unfold bind_err_def)
  obtain M where M: "np_multiply F (dx ubasis) = Inr M" and sM: "shape M = e # q # rest"
    using assms(3) by (simp add: np_multiply_def)
  obtain R where R: "np_sum_axis1 M = Inr R" and sR: "shape R = e # rest" and wR: "wf_ndarray R"
    using np_sum_axis1_shape [OF sM] by blast
  have a: "Functional_assemble form parameters ubasis None w nthreads = Inr R"
    using u M R by (simp add: bind_err_def)
  have entry: "item R (i # r) = (\<Sum>j<q. bitem F (i # j # r) * bitem (dx ubasis) (i # j # r))"
    if v: "valid_index (e # rest) (i # r)" for i r
  proof -
    have "item R (i # r) = (\<Sum>j<q. item M (i # j # r))"
      by (rule np_sum_axis1_entry [OF R sM v])
    also have "\<dots> = (\<Sum>j<q. bitem F (i # j # r) * bitem (dx ubasis) (i # j # r))"
    proof (rule sum.cong)
      fix j assume "j \<in> {..<q}"
      then have "valid_index (shape M) (i # j # r)"
        using v sM by simp
      then show "item M (i # j # r) = bitem F (i # j # r) * bitem (dx ubasis) (i # j # r)"
        by (rule np_multiply_item [OF M])
    qed simp
    finally show ?thesis .
  qed
  have flat: "item R [i] = (\<Sum>j<q. item F [i, j] * item (dx ubasis) [i, j])"
    if s: "shape F = [e, q] \<and> shape (dx ubasis) = [e, q]" and i: "i < e" for i
  proof -
    have rest: "rest = []"
      using assms(3) s by simp
    have "item R [i] = (\<Sum>j<q. bitem F [i, j] * bitem (dx ubasis) [i, j])"
      using entry [of i "[]"] i rest by simp
    also have "\<dots> = (\<Sum>j<q. item F [i, j] * item (dx ubasis) [i, j])"
      using s i by (intro sum.cong) (simp_all add: bitem_same_shape)
    finally show ?thesis .
  qed
  show ?thesis
    using u a sR wR entry flat by blast
qed

lemma broadcast_shapes_rank:
  assumes "broadcast_shapes s t = Some r"
  shows "length s \<le> length r \<and> length t \<le> length r"
proof -
  let ?n = "max (length s) (length t)"
  have "broadcast_dims (pad_shape ?n s) (pad_shape ?n t) = Some r"
    using assms by (simp add: broadcast_shapes_def Let_def)
  then have "length (pad_shape ?n s) = length r"
    using broadcast_dims_length by blast
  then have "?n = length r"
    by (simp add: pad_shape_def)
  then show ?thesis by auto
qed

lemma at_point_bitem:
  assumes "length (shape F) \<le> 2"
  shows "at_point F i j = Some (bitem F [i, j])"
proof (cases "shape F")
  case Nil
  then show ?thesis by (simp add: at_point_def bitem_def broadcast_index_def)
next
  case outer: (Cons m s1)
  show ?thesis
  proof (cases s1)
    case Nil
    then show ?thesis
      using outer by (simp add: at_point_def bitem_def pad_shape_def broadcast_index_def)
  next
    case (Cons n s2)
    then have "s2 = []" using assms outer by simp
    then show ?thesis
      using outer Cons by (simp add: at_point_def bitem_def pad_shape_def broadcast_index_def)
  qed
qed

lemma bitem_matrix:
  assumes "shape D = [e, q]" "i < e" "j < q"
  shows "bitem D [i, j] = data D ! (i * q + j)"
  using assms by (simp add: bitem_same_shape item_def)

text \<open>
  Claim C2, as the specification states it, makes the result for every kernel the array
  whose entry for an element is the sum over that element's quadrature points of the
  kernel output times \<open>dx\<close> at that point.  The code computes
  \<open>np.sum(form(w) * dx, axis=1)\<close>, and numpy aligns \<open>dx\<close> with the trailing axes of the
  kernel output.  For the output of shape \<open>[2, 2, 2]\<close> (element, point, component)
  below and \<open>dx\<close> of shape \<open>[2, 2]\<close>, the entry at element 0 and component 0 is
  \<open>1 * 10 + 3 * 30 = 100\<close>, where \<open>dx\<close> is read at \<open>[0, 0]\<close> and \<open>[1, 0]\<close>; the sum
  over the points of element 0 with \<open>dx\<close> at \<open>[0, 0]\<close> and \<open>[0, 1]\<close> is
  \<open>1 * 10 + 3 * 20 = 70\<close>.
\<close>

theorem Functional_assemble_sum_counterexample:
  "Functional_assemble Inr
       (\<lambda>w b. Inr \<lparr>shape = [2, 2, 2], data = [1, 2, 3, 4, 5, 6, 7, 8::int]\<rparr>)
       \<lparr>dx = \<lparr>shape = [2, 2], data = [10, 20, 30, 40]\<rparr>\<rparr> None () (Some 1)
     = Inr \<lparr>shape = [2, 2], data = [100, 200, 260, 440]\<rparr> \<and>
   item \<lparr>shape = [2, 2], data = [100, 200, 260, 440::int]\<rparr> [0, 0] \<noteq>
     item \<lparr>shape = [2, 2, 2], data = [1, 2, 3, 4, 5, 6, 7, 8::int]\<rparr> [0, 0, 0]
       * item \<lparr>shape = [2, 2], data = [10, 20, 30, 40]\<rparr> [0, 0]
     + item \<lparr>shape = [2, 2, 2], data = [1, 2, 3, 4, 5, 6, 7, 8::int]\<rparr> [0, 1, 0]
       * item \<lparr>shape = [2, 2], data = [10, 20, 30, 40]\<rparr> [0, 1]"
  by code_simp

text \<open>
  Claim C2, amended.  For every Functional wrapping a kernel \<open>form\<close> and every basis
  whose measure \<open>dx\<close> has one entry per element and quadrature point (shape \<open>[e, q]\<close>),
  and every kernel output of that shape or broadcast to it (a scalar, one value per
  quadrature point, or extent one along an axis), \<open>Functional.assemble(ubasis)\<close> returns
  exactly the array of shape \<open>[e]\<close> whose entry for element \<open>i\<close> is the sum over the
  \<open>q\<close> quadrature points \<open>j\<close> of the kernel output at \<open>i, j\<close> times \<open>dx\<close> at
  \<open>i, j\<close>; nothing is scattered or added afterwards.
\<close>

theorem Functional_assemble_sum:
  fixes form :: "'p \<Rightarrow> error + 'a::comm_semiring_0 ndarray"
  assumes "parameters w ubasis = Inr p" "form p = Inr F"
    and "shape (dx ubasis) = [e, q]"
    and "broadcast_shapes (shape F) [e, q] = Some [e, q]"
  shows
  "(\<forall>i j. \<exists>x. at_point F i j = Some x) \<and>
   Functional_assemble form parameters ubasis None w nthreads =
     Inr \<lparr>shape = [e],
          data = map (\<lambda>i. \<Sum>j<q. the (at_point F i j) * data (dx ubasis) ! (i * q + j))
                     [0..<e]\<rparr>"
proof -
  have rank: "length (shape F) \<le> 2"
    using broadcast_shapes_rank [OF assms(4)] by simp
  have pt: "at_point F i j = Some (bitem F [i, j])" for i j
    by (rule at_point_bitem [OF rank])
  have b: "broadcast_shapes (shape F) (shape (dx ubasis)) = Some (e # q # [])"
    using assms(3,4) by simp
  obtain R where a: "Functional_assemble form parameters ubasis None w nthreads = Inr R"
    and sR: "shape R = [e]" and wR: "wf_ndarray R"
    and en: "\<And>i r. valid_index [e] (i # r) \<Longrightarrow>
           item R (i # r) = (\<Sum>j<q. bitem F (i # j # r) * bitem (dx ubasis) (i # j # r))"
    using Functional_assemble_entries
        [where parameters = parameters and w = w and ubasis = ubasis and form = form
           and nthreads = nthreads, OF assms(1,2) b]
    by blast
  let ?f = "\<lambda>i. \<Sum>j<q. the (at_point F i j) * data (dx ubasis) ! (i * q + j)"
  have len: "length (data R) = e"
    using wR sR by (simp add: wf_ndarray_def)
  have nth: "data R ! i = ?f i" if i: "i < e" for i
  proof -
    have "data R ! i = item R [i]"
      using sR by (simp add: item_def)
    also have "\<dots> = (\<Sum>j<q. bitem F [i, j] * bitem (dx ubasis) [i, j])"
      using en [of i "[]"] i by simp
    also have "\<dots> = ?f i"
      using i assms(3) by (intro sum.cong) (simp_all add: pt bitem_matrix)
    finally show ?thesis .
  qed
  have "data R = map ?f [0..<e]"
    using len nth by (intro nth_equalityI) simp_all
  then have "R = \<lparr>shape = [e], data = map ?f [0..<e]\<rparr>"
    using sR by (cases R) simp
  then show ?thesis
    using a pt by simp
qed

theorem Functional_assemble_sum_witness:
  "Functional_assemble Inr (\<lambda>w b. Inr \<lparr>shape = [2, 2], data = [1, 2, 3, 4::int]\<rparr>)
       \<lparr>dx = \<lparr>shape = [2, 2], data = [5, 6, 7, 8]\<rparr>\<rparr> None () (Some 1)
     = Inr \<lparr>shape = [2], data = [17, 53]\<rparr> \<and>
   Functional_assemble Inr (\<lambda>w b. Inr \<lparr>shape = [2], data = [1, 10::int]\<rparr>)
       \<lparr>dx = \<lparr>shape = [2, 2], data = [5, 6, 7, 8]\<rparr>\<rparr> None () (Some 1)
     = Inr \<lparr>shape = [2], data = [65, 87]\<rparr>"
proof -
  let ?F = "\<lparr>shape = [2, 2], data = [1, 2, 3, 4::int]\<rparr>"
  let ?G = "\<lparr>shape = [2], data = [1, 10::int]\<rparr>"
  let ?dx = "\<lparr>shape = [2, 2], data = [5, 6, 7, 8::int]\<rparr>"
  let ?parF = "\<lambda>(w::unit) (b :: int GlobalBasis). (Inr ?F :: error + int ndarray)"
  let ?parG = "\<lambda>(w::unit) (b :: int GlobalBasis). (Inr ?G :: error + int ndarray)"
  let ?form = "Inr :: int ndarray \<Rightarrow> error + int ndarray"
  let ?ub = "\<lparr>dx = ?dx\<rparr>"
  have hF: "?parF () ?ub = Inr ?F" and hG: "?parG () ?ub = Inr ?G"
    and f1: "?form ?F = Inr ?F" and f2: "?form ?G = Inr ?G"
    by simp_all
  have sd: "shape (dx ?ub) = [2, 2]"
    by simp
  have bF: "broadcast_shapes (shape ?F) [2, 2] = Some [2, 2]"
    by simp
  have bG: "broadcast_shapes (shape ?G) [2, 2] = Some [2, 2]"
    by code_simp
  have rF: "map (\<lambda>i. \<Sum>j<2. the (at_point ?F i j) * data (dx ?ub) ! (i * 2 + j)) [0..<2]
      = [17, 53]"
    by (simp add: at_point_def upt_rec lessThan_Suc numeral_2_eq_2)
  have rG: "map (\<lambda>i. \<Sum>j<2. the (at_point ?G i j) * data (dx ?ub) ! (i * 2 + j)) [0..<2]
      = [65, 87]"
    by (simp add: at_point_def upt_rec lessThan_Suc numeral_2_eq_2)
  have tF: "Functional_assemble ?form ?parF ?ub None () (Some 1) =
      Inr \<lparr>shape = [2],
           data = map (\<lambda>i. \<Sum>j<2. the (at_point ?F i j) * data (dx ?ub) ! (i * 2 + j))
                      [0..<2]\<rparr>"
    using Functional_assemble_sum
      [where parameters = ?parF and w = "()" and ubasis = ?ub and form = ?form
         and nthreads = "Some 1", OF hF f1 sd bF]
    by blast
  have tG: "Functional_assemble ?form ?parG ?ub None () (Some 1) =
      Inr \<lparr>shape = [2],
           data = map (\<lambda>i. \<Sum>j<2. the (at_point ?G i j) * data (dx ?ub) ! (i * 2 + j))
                      [0..<2]\<rparr>"
    using Functional_assemble_sum
      [where parameters = ?parG and w = "()" and ubasis = ?ub and form = ?form
         and nthreads = "Some 1", OF hG f2 sd bG]
    by blast
  show ?thesis
    unfolding tF tG rF rG by simp
qed

text \<open>
  Claim C7.  Two calls of \<open>Functional.assemble\<close> that differ only in \<open>nthreads\<close> return
  the same result.
\<close>

theorem Functional_assemble_nthreads:
  "Functional_assemble form parameters ubasis vbasis w n1 =
   Functional_assemble form parameters ubasis vbasis w n2"
  by (simp add: Functional_assemble_def)

theorem Functional_assemble_nthreads_witness:
  "Functional_assemble Inr (\<lambda>w b. Inr \<lparr>shape = [1, 2], data = [5, 6::int]\<rparr>)
       \<lparr>dx = \<lparr>shape = [1, 2], data = [3, 4]\<rparr>\<rparr> None () (Some 1)
   = Functional_assemble Inr (\<lambda>w b. Inr \<lparr>shape = [1, 2], data = [5, 6::int]\<rparr>)
       \<lparr>dx = \<lparr>shape = [1, 2], data = [3, 4]\<rparr>\<rparr> None () (Some 4)"
  using Functional_assemble_nthreads
      [of Inr "\<lambda>w b. Inr \<lparr>shape = [1, 2], data = [5, 6::int]\<rparr>"
          "\<lparr>dx = \<lparr>shape = [1, 2], data = [3, 4]\<rparr>\<rparr>" None "()" "Some 1" "Some 4"]
  by simp

section \<open>Splitting a DiscreteField\<close>

text \<open>
  Claim C9.  \<open>_split\<close> on a DiscreteField whose value component is absent fails, whatever
  the other components are: the number of parts is read from the value component.
\<close>

theorem DiscreteField_split_needs_value:
  "value_comp d = None \<Longrightarrow> DiscreteField_split d = Inl AttributeError"
  by (simp add: DiscreteField_split_def DiscreteField_f_def)

theorem DiscreteField_split_needs_value_witness:
  "DiscreteField_split \<lparr>value_comp = None,
       grad = Some \<lparr>shape = [2, 1], data = [4, 5::int]\<rparr>,
       div_comp = None, curl = None, ggrad = None\<rparr> = Inl AttributeError"
  using DiscreteField_split_needs_value [of "\<lparr>value_comp = None,
       grad = Some \<lparr>shape = [2, 1], data = [4, 5::int]\<rparr>,
       div_comp = None, curl = None, ggrad = None\<rparr>"]
  by simp

lemma mapM_err_Inr:
  "(\<And>x. x \<in> set xs \<Longrightarrow> g x = Inr (h x)) \<Longrightarrow> mapM_err g xs = Inr (map h xs)"
  by (induction xs) simp_all

lemma getitem_in_range:
  "shape a = n # t \<Longrightarrow> i < n \<Longrightarrow> getitem a i = Inr (np_take i a)"
  by (simp add: getitem_def)

lemma np_take_item:
  assumes "wf_ndarray a" "shape a = n # t" "i < n" "valid_index t idx"
  shows "item (np_take i a) idx = item a (i # idx)"
proof -
  let ?P = "prod_list t"
  let ?p = "ravel_index t idx"
  have p: "?p < ?P" by (rule ravel_index_less [OF assms(4)])
  have len: "length (data a) = n * ?P"
    using assms(1,2) by (simp add: wf_ndarray_def)
  have "Suc i * ?P \<le> n * ?P"
    using assms(3) by (intro mult_le_mono1) simp
  then have le: "i * ?P + ?P \<le> length (data a)"
    using len by simp
  have "item (np_take i a) idx = take ?P (drop (i * ?P) (data a)) ! ?p"
    using assms(2) by (simp add: item_def np_take_def)
  also have "\<dots> = drop (i * ?P) (data a) ! ?p"
    using p by simp
  also have "\<dots> = data a ! (i * ?P + ?p)"
    using le by simp
  also have "\<dots> = item a (i # idx)"
    using assms(2) by (simp add: item_def)
  finally show ?thesis .
qed

lemma length_present: "length (present xs) \<le> length xs"
  by (induction xs rule: present.induct) simp_all

lemma present_empty_map:
  "present xs = [] \<Longrightarrow> map (map_option g) xs = replicate (length xs) None"
  by (induction xs rule: present.induct) simp_all

lemma leading_run_pack:
  "leading_run xs \<Longrightarrow>
     map Some (map g (present xs)) @ replicate (length xs - length (present xs)) None
       = map (map_option g) xs"
proof (induction xs rule: leading_run.induct)
  case 1
  then show ?case by simp
next
  case (2 x xs)
  then show ?case using length_present [of xs] by (simp add: Suc_diff_le)
next
  case (3 xs)
  then show ?case by (simp add: present_empty_map)
qed

lemma DiscreteField_new_five:
  "DiscreteField_new [a, b, c, d, e] =
     Inr \<lparr>value_comp = a, grad = b, div_comp = c, curl = d, ggrad = e\<rparr>"
  by (simp add: DiscreteField_new_def)

lemma DiscreteField_new_padded:
  assumes "length args \<le> 5"
    and "args @ replicate (5 - length args) None = [a, b, c, d, e]"
  shows "DiscreteField_new args =
     Inr \<lparr>value_comp = a, grad = b, div_comp = c, curl = d, ggrad = e\<rparr>"
  using assms by (simp add: DiscreteField_new_def Let_def)

lemma DiscreteField_new_packed:
  assumes "leading_run (DiscreteField_iter d)"
  shows "DiscreteField_new (map Some (map g (present (DiscreteField_iter d)))) =
     Inr \<lparr>value_comp = map_option g (value_comp d), grad = map_option g (grad d),
          div_comp = map_option g (div_comp d), curl = map_option g (curl d),
          ggrad = map_option g (ggrad d)\<rparr>"
proof -
  let ?xs = "DiscreteField_iter d"
  let ?args = "map Some (map g (present ?xs))"
  have l5: "length ?xs = 5" by (simp add: DiscreteField_iter_def)
  have le: "length ?args \<le> 5" using length_present [of ?xs] l5 by simp
  have "?args @ replicate (5 - length ?args) None = map (map_option g) ?xs"
    using leading_run_pack [OF assms, of g] l5 by simp
  also have "\<dots> = [map_option g (value_comp d), map_option g (grad d),
      map_option g (div_comp d), map_option g (curl d), map_option g (ggrad d)]"
    by (simp add: DiscreteField_iter_def)
  finally have p: "?args @ replicate (5 - length ?args) None =
      [map_option g (value_comp d), map_option g (grad d),
       map_option g (div_comp d), map_option g (curl d), map_option g (ggrad d)]" .
  show ?thesis
    by (rule DiscreteField_new_padded [OF le p])
qed

lemma present_value:
  "value_comp d = Some v \<Longrightarrow> v \<in> set (present (DiscreteField_iter d))"
  by (simp add: DiscreteField_iter_def)

text \<open>
  Claim C6, as the specification states it, fails on the code at two kinds of fields.  A
  field without value component whose grad has leading length 1 is not split at all.  A
  field with value and div but no grad is split into a part whose div slice sits in the
  grad slot: the present components are passed positionally, so they fill the leading
  slots.
\<close>

theorem DiscreteField_split_counterexample:
  "DiscreteField_split
     \<lparr>value_comp = None, grad = Some \<lparr>shape = [1, 2], data = [4, 5::int]\<rparr>,
      div_comp = None, curl = None, ggrad = None\<rparr> = Inl AttributeError \<and>
   DiscreteField_split
     \<lparr>value_comp = Some \<lparr>shape = [1, 2], data = [4, 5::int]\<rparr>, grad = None,
      div_comp = Some \<lparr>shape = [1, 2], data = [6, 7]\<rparr>, curl = None, ggrad = None\<rparr>
   = Inr [\<lparr>value_comp = Some \<lparr>shape = [2], data = [4, 5]\<rparr>,
           grad = Some \<lparr>shape = [2], data = [6, 7]\<rparr>,
           div_comp = None, curl = None, ggrad = None\<rparr>]"
  by code_simp

text \<open>
  Claim C6, amended.  For every DiscreteField whose value component is present, whose
  present components all have the same leading-axis length \<open>n\<close>, and in which no absent
  component precedes a present one, \<open>_split\<close> returns \<open>n\<close> DiscreteFields; the
  \<open>i\<close>-th holds slice \<open>i\<close> of the leading axis of each present component in that
  component's own slot, and absent components stay absent.  Slice \<open>i\<close> of an array has
  the remaining axes as its shape and the entries of the array at leading index \<open>i\<close>.
\<close>

theorem DiscreteField_split_leading:
  fixes d :: "'a DiscreteField"
  assumes "value_comp d = Some v"
    and "\<forall>a \<in> set (present (DiscreteField_iter d)). \<exists>t. shape a = n # t"
    and "leading_run (DiscreteField_iter d)"
  shows
  "DiscreteField_split d =
     Inr (map (\<lambda>i. \<lparr>value_comp = map_option (np_take i) (value_comp d),
                     grad = map_option (np_take i) (grad d),
                     div_comp = map_option (np_take i) (div_comp d),
                     curl = map_option (np_take i) (curl d),
                     ggrad = map_option (np_take i) (ggrad d)\<rparr>) [0..<n]) \<and>
   (\<forall>(a :: 'a ndarray) t i idx. wf_ndarray a \<and> shape a = n # t \<and> i < n \<and> valid_index t idx \<longrightarrow>
      shape (np_take i a) = t \<and> item (np_take i a) idx = item a (i # idx))"
proof -
  obtain s where sv: "shape v = n # s"
    using assms(1,2) present_value by blast
  have part: "bind_err (mapM_err (\<lambda>x. getitem x i) (present (DiscreteField_iter d)))
                (\<lambda>parts. DiscreteField_new (map Some parts)) =
      Inr \<lparr>value_comp = map_option (np_take i) (value_comp d),
           grad = map_option (np_take i) (grad d),
           div_comp = map_option (np_take i) (div_comp d),
           curl = map_option (np_take i) (curl d),
           ggrad = map_option (np_take i) (ggrad d)\<rparr>"
    if "i \<in> set [0..<n]" for i
  proof -
    have i: "i < n" using that by simp
    have m: "mapM_err (\<lambda>x. getitem x i) (present (DiscreteField_iter d)) =
        Inr (map (np_take i) (present (DiscreteField_iter d)))"
    proof (rule mapM_err_Inr)
      fix x assume "x \<in> set (present (DiscreteField_iter d))"
      then obtain t where "shape x = n # t" using assms(2) by blast
      then show "getitem x i = Inr (np_take i x)" using i by (rule getitem_in_range)
    qed
    show ?thesis
      by (simp only: m bind_err_def sum.case DiscreteField_new_packed [OF assms(3)])
  qed
  have split: "DiscreteField_split d =
     Inr (map (\<lambda>i. \<lparr>value_comp = map_option (np_take i) (value_comp d),
                     grad = map_option (np_take i) (grad d),
                     div_comp = map_option (np_take i) (div_comp d),
                     curl = map_option (np_take i) (curl d),
                     ggrad = map_option (np_take i) (ggrad d)\<rparr>) [0..<n])"
    using assms(1) sv mapM_err_Inr [of "[0..<n]", OF part]
    by (simp add: DiscreteField_split_def DiscreteField_f_def)
  have slice: "shape (np_take i a) = t \<and> item (np_take i a) idx = item a (i # idx)"
    if "wf_ndarray a \<and> shape a = n # t \<and> i < n \<and> valid_index t idx"
    for a :: "'a ndarray" and t i idx
    using that np_take_item [of a n t i idx] by (simp add: np_take_def)
  show ?thesis
    using split slice by blast
qed

theorem DiscreteField_split_leading_witness:
  "DiscreteField_split
     \<lparr>value_comp = Some \<lparr>shape = [2, 2], data = [1, 2, 3, 4::int]\<rparr>,
      grad = Some \<lparr>shape = [2, 1], data = [5, 6]\<rparr>,
      div_comp = None, curl = None, ggrad = None\<rparr>
   = Inr [\<lparr>value_comp = Some \<lparr>shape = [2], data = [1, 2]\<rparr>,
           grad = Some \<lparr>shape = [1], data = [5]\<rparr>,
           div_comp = None, curl = None, ggrad = None\<rparr>,
          \<lparr>value_comp = Some \<lparr>shape = [2], data = [3, 4]\<rparr>,
           grad = Some \<lparr>shape = [1], data = [6]\<rparr>,
           div_comp = None, curl = None, ggrad = None\<rparr>]"
proof -
  let ?v = "\<lparr>shape = [2, 2], data = [1, 2, 3, 4::int]\<rparr>"
  let ?d = "\<lparr>value_comp = Some ?v,
      grad = Some \<lparr>shape = [2, 1], data = [5, 6]\<rparr>,
      div_comp = None, curl = None, ggrad = None\<rparr>"
  have h1: "value_comp ?d = Some ?v" by simp
  have h2: "\<forall>a \<in> set (present (DiscreteField_iter ?d)). \<exists>t. shape a = 2 # t"
    by (simp add: DiscreteField_iter_def)
  have h3: "leading_run (DiscreteField_iter ?d)"
    by (simp add: DiscreteField_iter_def)
  have u: "[0..<2] = [0, Suc 0]"
    by (simp add: upt_rec)
  from DiscreteField_split_leading [OF h1 h2 h3]
  have "DiscreteField_split ?d =
     Inr (map (\<lambda>i. \<lparr>value_comp = map_option (np_take i) (value_comp ?d),
                     grad = map_option (np_take i) (grad ?d),
                     div_comp = map_option (np_take i) (div_comp ?d),
                     curl = map_option (np_take i) (curl ?d),
                     ggrad = map_option (np_take i) (ggrad ?d)\<rparr>) [0..<2])"
    by blast
  then show ?thesis
    by (simp add: u np_take_def)
qed

section \<open>The reference value of the insulated-wire example\<close>

text \<open>
  Over the real numbers, the parameters of the example are radii 2 and 3, conductivities
  101 and 11, generation 5 and convection coefficient 7, and the printed reference value
  is the closed form \<open>A a\<^sup>2 / (4 k0) (2 k0 / (h b) + 2 k0 / k1 ln (b / a) + 1)\<close> at these
  parameters.
\<close>

lemma T0_exact_closed_form:
  "radii = [2, 3] \<and> thermal_conductivity = [101, 11] \<and> joule_heating = 5 \<and>
   heat_transfer_coefficient = 7 \<and>
   T0_exact = 5 * 2 ^ 2 / (4 * 101) * (2 * 101 / (7 * 3) + 2 * 101 / 11 * ln (3 / 2) + 1)"
  by (simp add: T0_exact_def radii_def thermal_conductivity_def joule_heating_def
        heat_transfer_coefficient_def)

end
